theory Spec2Isabelle
  imports Complex_Main "HOL-Library.Multiset"
begin

section \<open>User-based collaborative filtering: recommenderSystem.py\<close>

text \<open>
  The development follows \<^verbatim>\<open>src/recommenderSystem.py\<close> function by function.
  A pandas frame of ratings is a list of rows in file order; a similarity frame is its
  list of labels (used for the index and for the columns alike) with an entry function; a
  pandas Series and a Python dict are association lists in their iteration order.
  The functions \<^verbatim>\<open>print\<close> and \<^verbatim>\<open>to_csv\<close> do not change a returned value and are left out.
\<close>

subsection \<open>Numbers\<close>

text \<open>
  A float64 is modelled as an exact real number or as NaN. Rounding is not modelled, and
  neither are the infinities: the only divisions by zero that the modelled functions can
  perform have a zero numerator (see \<open>zero_variance_covariance\<close> for \<^verbatim>\<open>np.corrcoef\<close>; the division
  of \<^verbatim>\<open>predict_ratings\<close> is guarded by \<^verbatim>\<open>similarity_sum != 0\<close>),
  and \<open>0 / 0\<close> is NaN.
\<close>

datatype fl = NaN | Fin real

fun fadd :: "fl \<Rightarrow> fl \<Rightarrow> fl" where
  "fadd (Fin x) (Fin y) = Fin (x + y)"
| "fadd _ _ = NaN"

fun fsub :: "fl \<Rightarrow> fl \<Rightarrow> fl" where
  "fsub (Fin x) (Fin y) = Fin (x - y)"
| "fsub _ _ = NaN"

fun fmul :: "fl \<Rightarrow> fl \<Rightarrow> fl" where
  "fmul (Fin x) (Fin y) = Fin (x * y)"
| "fmul _ _ = NaN"

fun fdiv :: "fl \<Rightarrow> fl \<Rightarrow> fl" where
  "fdiv (Fin x) (Fin y) = (if y = 0 then NaN else Fin (x / y))"
| "fdiv _ _ = NaN"



text \<open>Python's \<^verbatim>\<open>x != 0\<close> on a float: true for NaN.\<close>

fun fl_nonzero :: "fl \<Rightarrow> bool" where
  "fl_nonzero (Fin x) = (x \<noteq> 0)"
| "fl_nonzero NaN = True"

text \<open>\<^verbatim>\<open>Series.mean()\<close>: the sum over the count, NaN for an empty Series.\<close>

definition mean :: "real list \<Rightarrow> fl" where
  "mean xs = (if xs = [] then NaN else Fin (sum_list xs / real (length xs)))"

subsection \<open>Frames\<close>

record row =
  userId :: int
  movieId :: int
  rating :: real
  title :: string

record sim_df =
  labels :: "int list"
  entry :: "int \<Rightarrow> int \<Rightarrow> fl"

datatype error = KeyError | ValueError

subsection \<open>The user-movie matrix\<close>





subsection \<open>\<^verbatim>\<open>np.corrcoef\<close> and sklearn's \<^verbatim>\<open>cosine_similarity\<close>\<close>

definition dot :: "real list \<Rightarrow> real list \<Rightarrow> real" where
  "dot xs ys = sum_list (map2 (*) xs ys)"

definition avg :: "real list \<Rightarrow> real" where
  "avg xs = sum_list xs / real (length xs)"

definition dev :: "real list \<Rightarrow> real list" where
  "dev xs = map (\<lambda>x. x - avg xs) xs"





subsection \<open>The similarity matrices\<close>




subsection \<open>Sorting a Series\<close>

text \<open>
  \<^verbatim>\<open>Series.sort_values(ascending=False)\<close> sorts by value, largest first, with the NaN
  values last. Its default algorithm, \<^verbatim>\<open>kind='quicksort'\<close>, is not stable: pandas
  documents no order among equal values. The sort is therefore a parameter \<open>srt\<close> of the
  functions that call it, and \<open>sort_values_contract\<close> is what pandas documents of it.
\<close>

fun fl_ge :: "fl \<Rightarrow> fl \<Rightarrow> bool" where
  "fl_ge _ NaN = True"
| "fl_ge NaN (Fin y) = False"
| "fl_ge (Fin x) (Fin y) = (y \<le> x)"

definition descending :: "('k \<times> fl) list \<Rightarrow> bool" where
  "descending s = sorted_wrt fl_ge (map snd s)"

definition sort_values_contract :: "((int \<times> fl) list \<Rightarrow> (int \<times> fl) list) \<Rightarrow> bool" where
  "sort_values_contract srt = (\<forall>s. mset (srt s) = mset s \<and> descending (srt s))"

text \<open>
  Two sorts that meet the contract. \<open>sort_values_stable\<close> leaves equal values in the
  order of the Series; \<open>sort_values_reversed\<close> puts equal values in the opposite order
  (an ascending stable sort read backwards).
\<close>

fun insert_stable :: "int \<times> fl \<Rightarrow> (int \<times> fl) list \<Rightarrow> (int \<times> fl) list" where
  "insert_stable x [] = [x]"
| "insert_stable x (y # ys) =
     (if fl_ge (snd x) (snd y) then x # y # ys else y # insert_stable x ys)"

definition sort_values_stable :: "(int \<times> fl) list \<Rightarrow> (int \<times> fl) list" where
  "sort_values_stable s = foldr insert_stable s []"

fun insert_reversed :: "int \<times> fl \<Rightarrow> (int \<times> fl) list \<Rightarrow> (int \<times> fl) list" where
  "insert_reversed x [] = [x]"
| "insert_reversed x (y # ys) =
     (if fl_ge (snd y) (snd x) then y # insert_reversed x ys else x # y # ys)"

definition sort_values_reversed :: "(int \<times> fl) list \<Rightarrow> (int \<times> fl) list" where
  "sort_values_reversed s = foldr insert_reversed s []"

subsection \<open>\<^verbatim>\<open>get_top_similar_users\<close>\<close>

text \<open>\<^verbatim>\<open>similarity_df[target_user]\<close>: the column of the target user, as a Series.\<close>

definition column :: "sim_df \<Rightarrow> int \<Rightarrow> (int \<times> fl) list" where
  "column similarity_df target_user =
     map (\<lambda>u. (u, entry similarity_df u target_user)) (labels similarity_df)"

text \<open>
  The positional slice \<^verbatim>\<open>s[0:n]\<close>: the first \<open>n\<close> elements, and for a negative \<open>n\<close>
  all but the last \<open>-n\<close>.
\<close>

definition slice0 :: "'a list \<Rightarrow> int \<Rightarrow> 'a list" where
  "slice0 s n = (if 0 \<le> n then take (nat n) s else take (length s - nat (- n)) s)"

definition get_top_similar_users ::
  "((int \<times> fl) list \<Rightarrow> (int \<times> fl) list) \<Rightarrow> sim_df \<Rightarrow> int \<Rightarrow> int \<Rightarrow> error + (int \<times> fl) list" where
  "get_top_similar_users srt similarity_df target_user n =
     (if target_user \<in> set (labels similarity_df)
      then Inr (slice0 (srt (column similarity_df target_user)) n)
      else Inl KeyError)"

subsection \<open>\<^verbatim>\<open>predict_ratings\<close>\<close>

definition get_user_ratings :: "row list \<Rightarrow> int \<Rightarrow> row list" where
  "get_user_ratings ratings user = filter (\<lambda>r. userId r = user) ratings"

text \<open>\<^verbatim>\<open>drop_duplicates()\<close> keeps the first occurrence of every row.\<close>

definition drop_duplicates :: "'a list \<Rightarrow> 'a list" where
  "drop_duplicates xs = rev (remdups (rev xs))"

definition unseen_movies :: "row list \<Rightarrow> (int \<times> fl) list \<Rightarrow> int \<Rightarrow> (int \<times> string) list" where
  "unseen_movies ratings similar_users target_user =
     (let target_user_ratings = get_user_ratings ratings target_user;
          similar_users_seen_movies = filter (\<lambda>r. userId r \<in> fst ` set similar_users) ratings
      in drop_duplicates
           (map (\<lambda>r. (movieId r, title r))
              (filter (\<lambda>r. movieId r \<notin> movieId ` set target_user_ratings)
                 similar_users_seen_movies)))"

text \<open>\<^verbatim>\<open>similar_users_mean_rating[user]\<close>.\<close>

definition mean_rating :: "row list \<Rightarrow> int \<Rightarrow> fl" where
  "mean_rating ratings user = mean (map rating (get_user_ratings ratings user))"

text \<open>
  \<^verbatim>\<open>user_ratings_dict[user] = dict(zip(movieId, rating))\<close>: a later row of the same
  movie replaces an earlier one.
\<close>

definition user_ratings_dict :: "row list \<Rightarrow> int \<Rightarrow> int \<Rightarrow> real option" where
  "user_ratings_dict ratings user =
     map_of (rev (map (\<lambda>r. (movieId r, rating r)) (get_user_ratings ratings user)))"

text \<open>The inner loop over \<^verbatim>\<open>similar_users.items()\<close>, on the pair of the two sums.\<close>

fun accumulate :: "row list \<Rightarrow> int \<Rightarrow> (int \<times> fl) list \<Rightarrow> fl \<times> fl \<Rightarrow> fl \<times> fl" where
  "accumulate ratings movie_id [] (weighted_sum, similarity_sum) = (weighted_sum, similarity_sum)"
| "accumulate ratings movie_id ((user, similarity) # rest) (weighted_sum, similarity_sum) =
     (case user_ratings_dict ratings user movie_id of
        None \<Rightarrow> accumulate ratings movie_id rest (weighted_sum, similarity_sum)
      | Some user_rating \<Rightarrow>
          accumulate ratings movie_id rest
            (fadd weighted_sum
               (fmul similarity (fsub (Fin user_rating) (mean_rating ratings user))),
             fadd similarity_sum similarity))"

text \<open>\<^verbatim>\<open>d[k] = v\<close> on a dict: a present key keeps its place, a new key goes last.\<close>

fun dict_set :: "('k \<times> 'v) list \<Rightarrow> 'k \<Rightarrow> 'v \<Rightarrow> ('k \<times> 'v) list" where
  "dict_set [] k v = [(k, v)]"
| "dict_set ((k', v') # d) k v = (if k' = k then (k, v) # d else (k', v') # dict_set d k v)"

text \<open>The outer loop over \<^verbatim>\<open>unseen_movies.iterrows()\<close>.\<close>

fun predict_loop ::
  "row list \<Rightarrow> (int \<times> fl) list \<Rightarrow> fl \<Rightarrow> (int \<times> string) list \<Rightarrow> (string \<times> fl) list
     \<Rightarrow> (string \<times> fl) list" where
  "predict_loop ratings similar_users target_user_mean_rating [] predicted_ratings =
     predicted_ratings"
| "predict_loop ratings similar_users target_user_mean_rating ((movie_id, movie_title) # rest)
       predicted_ratings =
     (case accumulate ratings movie_id similar_users (Fin 0, Fin 0) of
        (weighted_sum, similarity_sum) \<Rightarrow>
          if fl_nonzero similarity_sum
          then predict_loop ratings similar_users target_user_mean_rating rest
                 (dict_set predicted_ratings movie_title
                    (fadd target_user_mean_rating (fdiv weighted_sum similarity_sum)))
          else predict_loop ratings similar_users target_user_mean_rating rest predicted_ratings)"

text \<open>The body of \<^verbatim>\<open>predict_ratings\<close> once the neighbours are selected.\<close>

definition predict_with :: "row list \<Rightarrow> (int \<times> fl) list \<Rightarrow> int \<Rightarrow> (string \<times> fl) list" where
  "predict_with ratings similar_users target_user =
     predict_loop ratings similar_users (mean_rating ratings target_user)
       (unseen_movies ratings similar_users target_user) []"

definition predict_ratings ::
  "((int \<times> fl) list \<Rightarrow> (int \<times> fl) list) \<Rightarrow> row list \<Rightarrow> sim_df \<Rightarrow> int
     \<Rightarrow> error + (string \<times> fl) list" where
  "predict_ratings srt ratings similarity_df target_user =
     (case get_top_similar_users srt similarity_df target_user 40 of
        Inl e \<Rightarrow> Inl e
      | Inr similar_users \<Rightarrow> Inr (predict_with ratings similar_users target_user))"

subsection \<open>\<^verbatim>\<open>recommend_movies\<close>\<close>

text \<open>
  \<^verbatim>\<open>sorted(predictions.items(), key=lambda x: x[1], reverse=True)[:n]\<close>. The items are
  the pairs of the dict returned by \<^verbatim>\<open>predict_ratings\<close>, whose ratings can be NaN.

  Python documents of \<^verbatim>\<open>sorted\<close> that it returns the items in another order, that it
  compares with \<^verbatim>\<open><\<close> only and that it is stable. Where no key is NaN, \<^verbatim>\<open><\<close> is a
  total order and the result is in descending order of the key. With a NaN every
  comparison is false, and what comes out depends on the algorithm and on the version of
  Python. The sort is therefore a parameter \<open>srt\<close>, and \<open>python_sorted_contract\<close> is what
  holds of every version.
\<close>

definition nan_free :: "('k \<times> fl) list \<Rightarrow> bool" where
  "nan_free items = (NaN \<notin> snd ` set items)"

definition python_sorted_contract ::
  "((string \<times> fl) list \<Rightarrow> (string \<times> fl) list) \<Rightarrow> bool" where
  "python_sorted_contract srt =
     (\<forall>items. mset (srt items) = mset items \<and> (nan_free items \<longrightarrow> descending (srt items)))"

definition recommend_movies ::
  "((string \<times> fl) list \<Rightarrow> (string \<times> fl) list) \<Rightarrow> (string \<times> fl) list \<Rightarrow> int
     \<Rightarrow> (string \<times> fl) list" where
  "recommend_movies srt predictions n = slice0 (srt predictions) n"

text \<open>
  The sort of CPython (\<^verbatim>\<open>listobject.c\<close>, as in version 3.12) for a list of fewer than
  64 items, step by step. With \<^verbatim>\<open>reverse=True\<close> the list is reversed, sorted in
  ascending order and reversed again. Sorting finds the run the list starts with
  (\<^verbatim>\<open>count_run\<close>: strictly descending, and then reversed, or else not descending) and
  inserts every later item into the sorted part at the place that a binary search gives
  (\<^verbatim>\<open>binarysort\<close>).
\<close>

text \<open>Python's \<^verbatim>\<open><\<close> on floats: false when one side is NaN.\<close>

fun py_lt :: "fl \<Rightarrow> fl \<Rightarrow> bool" where
  "py_lt (Fin x) (Fin y) = (x < y)"
| "py_lt _ _ = False"

fun run_ascending :: "'k \<times> fl \<Rightarrow> ('k \<times> fl) list \<Rightarrow> nat" where
  "run_ascending prev [] = 0"
| "run_ascending prev (x # xs) =
     (if py_lt (snd x) (snd prev) then 0 else Suc (run_ascending x xs))"

fun run_descending :: "'k \<times> fl \<Rightarrow> ('k \<times> fl) list \<Rightarrow> nat" where
  "run_descending prev [] = 0"
| "run_descending prev (x # xs) =
     (if py_lt (snd x) (snd prev) then Suc (run_descending x xs) else 0)"

text \<open>The length of the first run, and whether it is descending.\<close>

fun count_run :: "('k \<times> fl) list \<Rightarrow> nat \<times> bool" where
  "count_run [] = (0, False)"
| "count_run [x] = (1, False)"
| "count_run (x # y # xs) =
     (if py_lt (snd y) (snd x) then (2 + run_descending y xs, True)
      else (2 + run_ascending y xs, False))"

text \<open>The binary search of \<^verbatim>\<open>binarysort\<close> for the place of \<open>pivot\<close> in \<open>a[l:r]\<close>.\<close>

function bisect :: "fl \<Rightarrow> ('k \<times> fl) list \<Rightarrow> nat \<Rightarrow> nat \<Rightarrow> nat" where
  "bisect pivot a l r =
     (if l < r
      then (let p = l + (r - l) div 2
            in if py_lt pivot (snd (a ! p)) then bisect pivot a l p
               else bisect pivot a (Suc p) r)
      else l)"
  by pat_completeness auto
termination
  by (relation "measure (\<lambda>(pivot, a, l, r). r - l)") auto

declare bisect.simps [simp del]

fun binarysort :: "('k \<times> fl) list \<Rightarrow> ('k \<times> fl) list \<Rightarrow> ('k \<times> fl) list" where
  "binarysort a [] = a"
| "binarysort a (pivot # rest) =
     (let l = bisect (snd pivot) a 0 (length a)
      in binarysort (take l a @ pivot # drop l a) rest)"

definition list_sort :: "('k \<times> fl) list \<Rightarrow> ('k \<times> fl) list" where
  "list_sort a =
     (case count_run a of
        (n, desc) \<Rightarrow> binarysort (if desc then rev (take n a) else take n a) (drop n a))"

definition sorted_reverse :: "('k \<times> fl) list \<Rightarrow> ('k \<times> fl) list" where
  "sorted_reverse items = rev (list_sort (rev items))"

subsection \<open>Notions of the properties\<close>

text \<open>A strictly positive number: false for NaN.\<close>

fun fl_pos :: "fl \<Rightarrow> bool" where
  "fl_pos (Fin x) = (0 < x)"
| "fl_pos NaN = False"

text \<open>Ascending order of the second components, NaN first.\<close>

definition ascending :: "('k \<times> fl) list \<Rightarrow> bool" where
  "ascending s = sorted_wrt (\<lambda>a b. fl_ge b a) (map snd s)"

text \<open>
  The zero-filled rating vector of a user has zero variance: its squared deviations from
  their mean add up to 0.
\<close>

definition zero_variance :: "real list \<Rightarrow> bool" where
  "zero_variance xs = (dot (dev xs) (dev xs) = 0)"

text \<open>
  The formula of the specification for the rating of a candidate item, in its words: the
  neighbours who rated the item, the rating a neighbour gave, a sum, and
  \<open>targetMeanRating + weightedSum / similaritySum\<close> when \<open>similaritySum\<close> is not 0.
  It is stated in the arithmetic of the model, so that it also says what a NaN similarity
  gives; \<open>fsum_Fin\<close> reads the sums as sums of real numbers.
\<close>

definition raters :: "row list \<Rightarrow> int \<Rightarrow> (int \<times> fl) list \<Rightarrow> (int \<times> fl) list" where
  "raters ratings item neighbours =
     filter (\<lambda>(u, s). item \<in> movieId ` set (get_user_ratings ratings u)) neighbours"

definition rating_of :: "row list \<Rightarrow> int \<Rightarrow> int \<Rightarrow> real" where
  "rating_of ratings u item = (case user_ratings_dict ratings u item of Some r \<Rightarrow> r | None \<Rightarrow> 0)"

definition fsum :: "fl list \<Rightarrow> fl" where
  "fsum xs = foldl fadd (Fin 0) xs"

definition spec_predicted_rating :: "row list \<Rightarrow> (int \<times> fl) list \<Rightarrow> int \<Rightarrow> int \<Rightarrow> fl option" where
  "spec_predicted_rating ratings neighbours target_user item =
     (let weightedSum = fsum (map (\<lambda>(u, s). fmul s (fsub (Fin (rating_of ratings u item))
                                                        (mean_rating ratings u)))
                               (raters ratings item neighbours));
          similaritySum = fsum (map snd (raters ratings item neighbours))
      in if fl_nonzero similaritySum
         then Some (fadd (mean_rating ratings target_user) (fdiv weightedSum similaritySum))
         else None)"

subsection \<open>Example inputs\<close>

text \<open>Three users; user 1 has a negative similarity to both others.\<close>

definition sim3 :: sim_df where
  "sim3 = \<lparr>labels = [1, 2, 3],
           entry = (\<lambda>i j. if i = j then Fin 0
                          else if min i j = 1 \<and> max i j = 2 then Fin (- 1 / 2)
                          else if min i j = 1 \<and> max i j = 3 then Fin (- 1 / 5)
                          else Fin (2 / 5))\<rparr>"

text \<open>Three users; users 1 and 2 are equally similar to user 3.\<close>

definition sim_tie :: sim_df where
  "sim_tie = \<lparr>labels = [1, 2, 3],
              entry = (\<lambda>i j. if i = j then Fin 0
                             else if min i j = 1 \<and> max i j = 2 then Fin (1 / 5)
                             else Fin (1 / 2))\<rparr>"

text \<open>The same matrix with the index in another order.\<close>

definition sim_tie_unordered :: sim_df where
  "sim_tie_unordered = \<lparr>labels = [2, 1, 3], entry = entry sim_tie\<rparr>"



text \<open>Three predictions, and five predictions of which two are NaN.\<close>

definition predictions_three :: "(string \<times> fl) list" where
  "predictions_three = [(''a'', Fin (7 / 2)), (''b'', Fin (9 / 2)), (''c'', Fin 4)]"

definition predictions_nan :: "(string \<times> fl) list" where
  "predictions_nan =
     [(''A'', NaN), (''B'', Fin 1), (''C'', Fin 2), (''D'', NaN), (''E'', Fin 3)]"

text \<open>The example of the specification: one neighbour of similarity 0.8.\<close>

definition sim_pair :: sim_df where
  "sim_pair = \<lparr>labels = [1, 2], entry = (\<lambda>i j. if i = j then Fin 0 else Fin (4 / 5))\<rparr>"

definition ratings_spec :: "row list" where
  "ratings_spec =
     [\<lparr>userId = 1, movieId = 1, rating = 5, title = ''item1''\<rparr>,
      \<lparr>userId = 1, movieId = 2, rating = 3, title = ''item2''\<rparr>,
      \<lparr>userId = 2, movieId = 1, rating = 4, title = ''item1''\<rparr>,
      \<lparr>userId = 2, movieId = 3, rating = 5, title = ''item3''\<rparr>]"

text \<open>Two movies with the same title, each rated by one neighbour of user 1.\<close>

definition sim_half :: sim_df where
  "sim_half = \<lparr>labels = [1, 2, 3],
               entry = (\<lambda>i j. if i = j then Fin 0
                              else if min i j = 1 \<and> max i j = 2 then Fin (1 / 2)
                              else if min i j = 1 \<and> max i j = 3 then Fin (1 / 4)
                              else Fin (1 / 8))\<rparr>"

definition ratings_same_title :: "row list" where
  "ratings_same_title =
     [\<lparr>userId = 1, movieId = 1, rating = 4, title = ''T''\<rparr>,
      \<lparr>userId = 2, movieId = 1, rating = 3, title = ''T''\<rparr>,
      \<lparr>userId = 2, movieId = 10, rating = 5, title = ''A''\<rparr>,
      \<lparr>userId = 3, movieId = 1, rating = 3, title = ''T''\<rparr>,
      \<lparr>userId = 3, movieId = 20, rating = 1, title = ''A''\<rparr>]"

text \<open>A movie unseen by user 1 with the title of a movie that user 1 rated.\<close>

definition ratings_own_title :: "row list" where
  "ratings_own_title =
     [\<lparr>userId = 1, movieId = 1, rating = 4, title = ''A''\<rparr>,
      \<lparr>userId = 2, movieId = 1, rating = 3, title = ''A''\<rparr>,
      \<lparr>userId = 2, movieId = 2, rating = 5, title = ''A''\<rparr>]"

text \<open>Ratings in which user 3 has none.\<close>

definition ratings_no_target :: "row list" where
  "ratings_no_target =
     [\<lparr>userId = 1, movieId = 10, rating = 4, title = ''A''\<rparr>,
      \<lparr>userId = 2, movieId = 10, rating = 2, title = ''A''\<rparr>,
      \<lparr>userId = 2, movieId = 20, rating = 4, title = ''B''\<rparr>]"

section \<open>Properties\<close>

subsection \<open>The order of a sorted Series\<close>

lemma fl_ge_total: "fl_ge a b \<or> fl_ge b a"
  by (cases a; cases b) auto

lemma fl_ge_trans: "fl_ge a b \<Longrightarrow> fl_ge b c \<Longrightarrow> fl_ge a c"
  by (cases a; cases b; cases c) auto

lemma mset_insert_stable: "mset (insert_stable x s) = add_mset x (mset s)"
  by (induction s) auto

lemma set_insert_stable: "set (insert_stable x s) = insert x (set s)"
  by (induction s) auto

lemma descending_insert_stable:
  "descending s \<Longrightarrow> descending (insert_stable x s)"
proof (induction s)
  case Nil
  then show ?case by (simp add: descending_def)
next
  case (Cons y ys)
  show ?case
  proof (cases "fl_ge (snd x) (snd y)")
    case True
    with Cons.prems show ?thesis
      by (auto simp: descending_def intro: fl_ge_trans)
  next
    case False
    then have yx: "fl_ge (snd y) (snd x)" using fl_ge_total by blast
    from Cons.prems have ys: "descending ys" by (simp add: descending_def)
    from Cons.prems have all: "\<forall>z\<in>set ys. fl_ge (snd y) (snd z)"
      by (simp add: descending_def)
    from Cons.IH [OF ys] all yx False show ?thesis
      by (auto simp: descending_def set_insert_stable)
  qed
qed

lemma sort_values_stable_contract: "sort_values_contract sort_values_stable"
proof -
  have m: "mset (foldr insert_stable s []) = mset s" for s
    by (induction s) (simp_all add: mset_insert_stable)
  have d: "descending (foldr insert_stable s [])" for s
  proof (induction s)
    case Nil
    show ?case by (simp add: descending_def)
  next
    case (Cons x s)
    then show ?case by (simp add: descending_insert_stable)
  qed
  show ?thesis
    by (simp add: sort_values_contract_def sort_values_stable_def m d)
qed

lemma mset_insert_reversed: "mset (insert_reversed x s) = add_mset x (mset s)"
  by (induction s) auto

lemma set_insert_reversed: "set (insert_reversed x s) = insert x (set s)"
  by (induction s) auto

lemma descending_insert_reversed:
  "descending s \<Longrightarrow> descending (insert_reversed x s)"
proof (induction s)
  case Nil
  then show ?case by (simp add: descending_def)
next
  case (Cons y ys)
  show ?case
  proof (cases "fl_ge (snd y) (snd x)")
    case True
    from Cons.prems have ys: "descending ys" by (simp add: descending_def)
    from Cons.prems have all: "\<forall>z\<in>set ys. fl_ge (snd y) (snd z)"
      by (simp add: descending_def)
    from Cons.IH [OF ys] all True show ?thesis
      by (auto simp: descending_def set_insert_reversed)
  next
    case False
    then have xy: "fl_ge (snd x) (snd y)" using fl_ge_total by blast
    with Cons.prems False show ?thesis
      by (auto simp: descending_def intro: fl_ge_trans)
  qed
qed

lemma sort_values_reversed_contract: "sort_values_contract sort_values_reversed"
proof -
  have m: "mset (foldr insert_reversed s []) = mset s" for s
    by (induction s) (simp_all add: mset_insert_reversed)
  have d: "descending (foldr insert_reversed s [])" for s
  proof (induction s)
    case Nil
    show ?case by (simp add: descending_def)
  next
    case (Cons x s)
    then show ?case by (simp add: descending_insert_reversed)
  qed
  show ?thesis
    by (simp add: sort_values_contract_def sort_values_reversed_def m d)
qed

lemma contract_mset: "sort_values_contract srt \<Longrightarrow> mset (srt s) = mset s"
  by (simp add: sort_values_contract_def)

lemma contract_set: "sort_values_contract srt \<Longrightarrow> set (srt s) = set s"
  by (metis contract_mset set_mset_mset)

lemma contract_length: "sort_values_contract srt \<Longrightarrow> length (srt s) = length s"
  by (metis contract_mset size_mset)

lemma contract_descending: "sort_values_contract srt \<Longrightarrow> descending (srt s)"
  by (simp add: sort_values_contract_def)

lemma contract_filter_length:
  "sort_values_contract srt \<Longrightarrow> length (filter P (srt s)) = length (filter P s)"
  by (metis contract_mset mset_filter size_mset)

lemma descending_take: "descending s \<Longrightarrow> descending (take n s)"
  by (simp add: descending_def take_map [symmetric])

lemma descending_after:
  assumes "descending (ys @ e # zs)" and "\<not> fl_pos (snd e)"
  shows "filter (\<lambda>p. fl_pos (snd p)) (e # zs) = []"
proof -
  have "\<not> fl_pos (snd b)" if "b \<in> set zs" for b
  proof -
    from assms(1) that have "fl_ge (snd e) (snd b)"
      by (auto simp: descending_def sorted_wrt_append)
    with assms(2) show ?thesis
      by (cases "snd e"; cases "snd b") auto
  qed
  with assms(2) show ?thesis by (auto simp: filter_empty_conv)
qed

lemma target_not_in_prefix:
  assumes d: "descending s"
      and z: "\<forall>p\<in>set s. fst p = t \<longrightarrow> \<not> fl_pos (snd p)"
      and n: "n \<le> length (filter (\<lambda>p. fl_pos (snd p)) s)"
  shows "t \<notin> fst ` set (take n s)"
proof
  assume "t \<in> fst ` set (take n s)"
  then obtain e where e: "e \<in> set (take n s)" "fst e = t" by auto
  then obtain ys zs where split: "take n s = ys @ e # zs"
    by (auto simp: in_set_conv_decomp)
  have s: "s = ys @ e # (zs @ drop n s)"
    using split append_take_drop_id [of n s] by (metis append.assoc append_Cons)
  have "e \<in> set s" using e(1) by (rule in_set_takeD)
  with z e(2) have np: "\<not> fl_pos (snd e)" by blast
  have "descending (ys @ e # (zs @ drop n s))" using d s by simp
  from descending_after [OF this np]
  have "filter (\<lambda>p. fl_pos (snd p)) s = filter (\<lambda>p. fl_pos (snd p)) ys"
    by (subst s) (simp del: filter.simps)
  then have "length (filter (\<lambda>p. fl_pos (snd p)) s) \<le> length ys"
    by simp
  moreover have "length ys < n"
  proof -
    have "length (take n s) \<le> n" by simp
    with split show ?thesis by simp
  qed
  ultimately show False using n by simp
qed

subsection \<open>Selecting the neighbours\<close>

lemma top_sim3_1: "get_top_similar_users sort_values_stable sim3 1 2
    = Inr [(1, Fin 0), (3, Fin (- 1 / 5))]"
  by (simp add: get_top_similar_users_def sim3_def column_def sort_values_stable_def slice0_def)

lemma top_sim3_3: "get_top_similar_users sort_values_stable sim3 3 (- 1)
    = Inr [(2, Fin (2 / 5)), (3, Fin 0)]"
  by (simp add: get_top_similar_users_def sim3_def column_def sort_values_stable_def slice0_def)

lemma top_sim3_3_two: "get_top_similar_users sort_values_stable sim3 3 2
    = Inr [(2, Fin (2 / 5)), (3, Fin 0)]"
  by (simp add: get_top_similar_users_def sim3_def column_def sort_values_stable_def slice0_def)

lemma top_sim_tie_reversed: "get_top_similar_users sort_values_reversed sim_tie 3 40
    = Inr [(2, Fin (1 / 2)), (1, Fin (1 / 2)), (3, Fin 0)]"
  by (simp add: get_top_similar_users_def sim_tie_def column_def sort_values_reversed_def
      slice0_def)

lemma top_sim_tie_unordered: "get_top_similar_users sort_values_stable sim_tie_unordered 3 40
    = Inr [(2, Fin (1 / 2)), (1, Fin (1 / 2)), (3, Fin 0)]"
  by (simp add: get_top_similar_users_def sim_tie_unordered_def sim_tie_def column_def
      sort_values_stable_def slice0_def)

lemma top_sim_tie_two: "get_top_similar_users sort_values_stable sim_tie 3 2
    = Inr [(1, Fin (1 / 2)), (2, Fin (1 / 2))]"
  by (simp add: get_top_similar_users_def sim_tie_def column_def sort_values_stable_def
      slice0_def)

text \<open>
  Claim C7, as the code has it. For every sort that meets the contract of
  \<^verbatim>\<open>sort_values\<close>, every similarity matrix and every target user in it, the selection
  with \<open>k \<ge> 0\<close> returns at most \<open>k\<close> entries and with \<open>k = 0\<close> none. With \<open>k < 0\<close> the
  slice \<^verbatim>\<open>[0:k]\<close> drops the last \<open>-k\<close> entries of the sorted column and keeps the others:
  the result has as many entries as the matrix has users, less \<open>-k\<close>.
\<close>

theorem top_similar_users_size:
  assumes "sort_values_contract srt"
      and "get_top_similar_users srt similarity_df target_user k = Inr similar_users"
  shows "(0 \<le> k \<longrightarrow> length similar_users \<le> nat k)
       \<and> (k = 0 \<longrightarrow> similar_users = [])
       \<and> (k < 0 \<longrightarrow> length similar_users = length (labels similarity_df) - nat (- k))"
proof -
  from assms(2) have su: "similar_users = slice0 (srt (column similarity_df target_user)) k"
    by (auto simp: get_top_similar_users_def split: if_splits)
  have len: "length (srt (column similarity_df target_user)) = length (labels similarity_df)"
    using contract_length [OF assms(1)] by (simp add: column_def)
  show ?thesis
    using len by (auto simp: su slice0_def)
qed

theorem top_similar_users_size_witness:
  "sort_values_contract sort_values_stable
   \<and> get_top_similar_users sort_values_stable sim3 3 2 = Inr [(2, Fin (2 / 5)), (3, Fin 0)]
   \<and> length [(2 :: int, Fin (2 / 5)), (3, Fin 0)] \<le> nat 2"
  using top_similar_users_size [OF sort_values_stable_contract top_sim3_3_two]
    sort_values_stable_contract top_sim3_3_two
  by simp

text \<open>
  Claim C7 as the specification states it fails for a negative \<open>k\<close>: with three users
  and \<open>k = -1\<close> the selection returns two entries, not none.
\<close>

theorem top_similar_users_negative_k:
  "get_top_similar_users sort_values_stable sim3 3 (- 1) = Inr [(2, Fin (2 / 5)), (3, Fin 0)]
   \<and> [(2 :: int, Fin (2 / 5)), (3, Fin 0)] \<noteq> []"
  using top_sim3_3 by simp

text \<open>
  Claim C3, as the code has it. For every sort that meets the contract, every similarity
  matrix whose diagonal entry for the target user is 0 and every \<open>k \<ge> 0\<close>: when at least
  \<open>k\<close> users have a strictly positive similarity to the target user, the selected
  neighbourhood does not contain the target user; and its scores are in descending order,
  NaN scores last.
\<close>

theorem top_similar_users_excludes_target:
  assumes "sort_values_contract srt"
      and "get_top_similar_users srt similarity_df target_user k = Inr similar_users"
      and "0 \<le> k"
      and "entry similarity_df target_user target_user = Fin 0"
      and "nat k \<le> length (filter (\<lambda>p. fl_pos (snd p)) (column similarity_df target_user))"
  shows "target_user \<notin> fst ` set similar_users \<and> descending similar_users"
proof -
  let ?c = "column similarity_df target_user"
  from assms(2,3) have su: "similar_users = take (nat k) (srt ?c)"
    by (auto simp: get_top_similar_users_def slice0_def split: if_splits)
  have d: "descending (srt ?c)" using assms(1) by (rule contract_descending)
  have z: "\<forall>p\<in>set (srt ?c). fst p = target_user \<longrightarrow> \<not> fl_pos (snd p)"
    using assms(4) by (auto simp: contract_set [OF assms(1)] column_def)
  have n: "nat k \<le> length (filter (\<lambda>p. fl_pos (snd p)) (srt ?c))"
    using assms(5) by (simp add: contract_filter_length [OF assms(1)])
  from target_not_in_prefix [OF d z n] descending_take [OF d] show ?thesis
    by (simp add: su)
qed

theorem top_similar_users_excludes_target_witness:
  "sort_values_contract sort_values_stable
   \<and> get_top_similar_users sort_values_stable sim_tie 3 2
       = Inr [(1, Fin (1 / 2)), (2, Fin (1 / 2))]
   \<and> (0 :: int) \<le> 2
   \<and> entry sim_tie 3 3 = Fin 0
   \<and> nat 2 \<le> length (filter (\<lambda>p. fl_pos (snd p)) (column sim_tie 3))
   \<and> (3 :: int) \<notin> fst ` set [(1, Fin (1 / 2)), (2, Fin (1 / 2))]
   \<and> descending [(1 :: int, Fin (1 / 2)), (2, Fin (1 / 2))]"
proof -
  have z: "(0 :: int) \<le> 2" by simp
  have e: "entry sim_tie 3 3 = Fin 0" by (simp add: sim_tie_def)
  have n: "nat 2 \<le> length (filter (\<lambda>p. fl_pos (snd p)) (column sim_tie 3))"
    by (simp add: sim_tie_def column_def)
  from top_similar_users_excludes_target
         [OF sort_values_stable_contract top_sim_tie_two z e n]
    sort_values_stable_contract top_sim_tie_two e n
  show ?thesis by simp
qed

text \<open>
  Claim C3 as the specification states it fails: in a matrix of three users where the
  target user 1 has a negative similarity to both others, the neighbourhood of size 2 is
  headed by the target user itself, whose diagonal entry 0 is the largest of the column.
\<close>

theorem top_similar_users_contains_target:
  "length (labels sim3) = 2 + 1
   \<and> get_top_similar_users sort_values_stable sim3 1 2 = Inr [(1, Fin 0), (3, Fin (- 1 / 5))]
   \<and> (1 :: int) \<in> fst ` set [(1, Fin 0), (3, Fin (- 1 / 5))]"
  using top_sim3_1 by (simp add: sim3_def)

text \<open>
  Claim C8, as the code has it. For every sort that meets the contract, the neighbourhood
  is the first part of the target user's similarity column put in descending order of
  score, NaN scores last. The order among equal scores is left to
  \<^verbatim>\<open>sort_values\<close>.
\<close>

theorem top_similar_users_descending:
  assumes "sort_values_contract srt"
      and "get_top_similar_users srt similarity_df target_user k = Inr similar_users"
  shows "\<exists>rest. mset (similar_users @ rest) = mset (column similarity_df target_user)
               \<and> descending (similar_users @ rest)"
proof -
  let ?s = "srt (column similarity_df target_user)"
  from assms(2) obtain m where su: "similar_users = take m ?s"
    by (auto simp: get_top_similar_users_def slice0_def split: if_splits)
  have "mset (similar_users @ drop m ?s) = mset (column similarity_df target_user)"
    by (simp only: su append_take_drop_id contract_mset [OF assms(1)])
  moreover have "descending (similar_users @ drop m ?s)"
    by (simp only: su append_take_drop_id contract_descending [OF assms(1)])
  ultimately show ?thesis by blast
qed

theorem top_similar_users_descending_witness:
  "sort_values_contract sort_values_stable
   \<and> get_top_similar_users sort_values_stable sim3 1 2 = Inr [(1, Fin 0), (3, Fin (- 1 / 5))]
   \<and> (\<exists>rest. mset ([(1, Fin 0), (3, Fin (- 1 / 5))] @ rest) = mset (column sim3 1)
            \<and> descending ([(1, Fin 0), (3, Fin (- 1 / 5))] @ rest))"
  using top_similar_users_descending [OF sort_values_stable_contract top_sim3_1]
    sort_values_stable_contract top_sim3_1
  by simp

text \<open>
  Claim C8 as the specification states it fails on the order of equal scores. Users 1
  and 2 are equally similar to user 3. A sort that reads an ascending stable sort
  backwards meets the contract and puts user 2 before user 1; a sort that keeps equal
  scores in the order of the index does the same when the index lists user 2 first.
\<close>

theorem top_similar_users_tie_order:
  "get_top_similar_users sort_values_reversed sim_tie 3 40
     = Inr [(2, Fin (1 / 2)), (1, Fin (1 / 2)), (3, Fin 0)]
   \<and> get_top_similar_users sort_values_stable sim_tie_unordered 3 40
     = Inr [(2, Fin (1 / 2)), (1, Fin (1 / 2)), (3, Fin 0)]
   \<and> sort_values_contract sort_values_reversed
   \<and> sort_values_contract sort_values_stable"
  using top_sim_tie_reversed top_sim_tie_unordered sort_values_reversed_contract
    sort_values_stable_contract
  by simp

subsection \<open>Ranking the predictions\<close>

lemma bisect_stop: "\<not> l < r \<Longrightarrow> bisect pivot a l r = l"
  by (simp add: bisect.simps)

lemma bisect_left:
  "l < r \<Longrightarrow> py_lt pivot (snd (a ! (l + (r - l) div 2)))
     \<Longrightarrow> bisect pivot a l r = bisect pivot a l (l + (r - l) div 2)"
  by (subst bisect.simps) (simp add: Let_def)

lemma bisect_right:
  "l < r \<Longrightarrow> \<not> py_lt pivot (snd (a ! (l + (r - l) div 2)))
     \<Longrightarrow> bisect pivot a l r = bisect pivot a (Suc (l + (r - l) div 2)) r"
  by (subst bisect.simps) (simp add: Let_def)

lemmas bisect_eval = bisect_stop bisect_left bisect_right

lemma transp_fl_ge: "transp fl_ge" "transp (\<lambda>a b. fl_ge b a)"
  by (auto simp: transp_def intro: fl_ge_trans)

lemma ascending_rev: "ascending (rev s) = descending s"
  by (simp add: ascending_def descending_def rev_map [symmetric] sorted_wrt_rev)

lemma descending_rev: "descending (rev s) = ascending s"
  by (simp add: ascending_def descending_def rev_map [symmetric] sorted_wrt_rev)

lemma py_lt_fl_ge: "py_lt x y \<Longrightarrow> fl_ge y x"
  by (cases x; cases y) auto

lemma not_py_lt_fl_ge: "\<not> py_lt x y \<Longrightarrow> x \<noteq> NaN \<Longrightarrow> y \<noteq> NaN \<Longrightarrow> fl_ge x y"
  by (cases x; cases y) auto

lemma py_lt_fl_ge_trans: "py_lt x y \<Longrightarrow> fl_ge z y \<Longrightarrow> z \<noteq> NaN \<Longrightarrow> py_lt x z"
  by (cases x; cases y; cases z) auto

lemma nan_free_nth: "nan_free a \<Longrightarrow> i < length a \<Longrightarrow> snd (a ! i) \<noteq> NaN"
  by (metis image_eqI nan_free_def nth_mem)

lemma ascending_nth:
  "ascending a \<Longrightarrow> i \<le> j \<Longrightarrow> j < length a \<Longrightarrow> fl_ge (snd (a ! j)) (snd (a ! i))"
proof -
  assume a: "ascending a" and ij: "i \<le> j" and j: "j < length a"
  show ?thesis
  proof (cases "i = j")
    case True
    then show ?thesis by (cases "snd (a ! j)") auto
  next
    case False
    with ij have "i < j" by simp
    with a j show ?thesis
      by (auto simp: ascending_def sorted_wrt_iff_nth_less)
  qed
qed

lemma bisect_spec:
  "ascending a \<Longrightarrow> nan_free a \<Longrightarrow> pivot \<noteq> NaN \<Longrightarrow> l \<le> r \<Longrightarrow> r \<le> length a
     \<Longrightarrow> \<forall>i<l. fl_ge pivot (snd (a ! i))
     \<Longrightarrow> \<forall>i. r \<le> i \<and> i < length a \<longrightarrow> py_lt pivot (snd (a ! i))
     \<Longrightarrow> bisect pivot a l r \<le> length a
         \<and> (\<forall>i<bisect pivot a l r. fl_ge pivot (snd (a ! i)))
         \<and> (\<forall>i. bisect pivot a l r \<le> i \<and> i < length a \<longrightarrow> py_lt pivot (snd (a ! i)))"
proof (induction pivot a l r rule: bisect.induct)
  case (1 pivot a l r)
  note asc = "1.prems"(1) and nf = "1.prems"(2) and pv = "1.prems"(3)
  show ?case
  proof (cases "l < r")
    case False
    with "1.prems"(4) have "l = r" by simp
    with "1.prems"(5,6,7) show ?thesis by (simp add: bisect_stop)
  next
    case True
    let ?p = "l + (r - l) div 2"
    have p: "l \<le> ?p" "?p < r" "?p < length a" using True "1.prems"(5) by auto
    show ?thesis
    proof (cases "py_lt pivot (snd (a ! ?p))")
      case lt: True
      have up: "\<forall>i. ?p \<le> i \<and> i < length a \<longrightarrow> py_lt pivot (snd (a ! i))"
      proof (intro allI impI)
        fix i assume i: "?p \<le> i \<and> i < length a"
        then have ge: "fl_ge (snd (a ! i)) (snd (a ! ?p))"
          using asc by (simp add: ascending_nth)
        have "snd (a ! i) \<noteq> NaN" using nf i by (simp add: nan_free_nth)
        with lt ge show "py_lt pivot (snd (a ! i))"
          by (rule py_lt_fl_ge_trans)
      qed
      have "?p \<le> length a" using p by simp
      from "1.IH"(1) [OF True refl lt asc nf pv p(1) this "1.prems"(6) up]
      show ?thesis by (simp add: bisect_left [OF True lt])
    next
      case ge: False
      have low: "\<forall>i<Suc ?p. fl_ge pivot (snd (a ! i))"
      proof (intro allI impI)
        fix i assume i: "i < Suc ?p"
        have "snd (a ! ?p) \<noteq> NaN" using nf p(3) by (simp add: nan_free_nth)
        with ge pv have "fl_ge pivot (snd (a ! ?p))" by (simp add: not_py_lt_fl_ge)
        moreover have "fl_ge (snd (a ! ?p)) (snd (a ! i))"
          using asc i p(3) by (simp add: ascending_nth)
        ultimately show "fl_ge pivot (snd (a ! i))" by (rule fl_ge_trans)
      qed
      have "Suc ?p \<le> r" using p by simp
      from "1.IH"(2) [OF True refl ge asc nf pv this "1.prems"(5) low "1.prems"(7)]
      show ?thesis by (simp add: bisect_right [OF True ge])
    qed
  qed
qed

lemma ascending_insert:
  assumes asc: "ascending a" and nf: "nan_free a" and pv: "snd pivot \<noteq> NaN"
  shows "ascending (take (bisect (snd pivot) a 0 (length a)) a @ pivot
                      # drop (bisect (snd pivot) a 0 (length a)) a)"
proof -
  let ?k = "bisect (snd pivot) a 0 (length a)"
  have top: "\<forall>i. length a \<le> i \<and> i < length a \<longrightarrow> py_lt (snd pivot) (snd (a ! i))"
    by auto
  have bot: "\<forall>i<0. fl_ge (snd pivot) (snd (a ! i))" by simp
  from bisect_spec [OF asc nf pv le0 order_refl bot top]
  have k: "?k \<le> length a" "\<forall>i<?k. fl_ge (snd pivot) (snd (a ! i))"
    "\<forall>i. ?k \<le> i \<and> i < length a \<longrightarrow> py_lt (snd pivot) (snd (a ! i))"
    by simp_all
  have before: "fl_ge (snd pivot) (snd x)" if "x \<in> set (take ?k a)" for x
  proof -
    from that obtain i where "i < length (take ?k a)" "x = take ?k a ! i"
      by (auto simp: in_set_conv_nth)
    with k(1,2) show ?thesis by simp
  qed
  have after: "fl_ge (snd x) (snd pivot)" if "x \<in> set (drop ?k a)" for x
  proof -
    from that obtain i where "i < length (drop ?k a)" "x = drop ?k a ! i"
      by (auto simp: in_set_conv_nth)
    with k(1,3) have "py_lt (snd pivot) (snd x)" by simp
    then show ?thesis by (rule py_lt_fl_ge)
  qed
  have parts: "sorted_wrt (\<lambda>a b. fl_ge b a) (map snd (take ?k a))"
    "sorted_wrt (\<lambda>a b. fl_ge b a) (map snd (drop ?k a))"
    using asc by (simp_all add: ascending_def take_map [symmetric] drop_map [symmetric]
        sorted_wrt_drop)
  have cross: "fl_ge (snd y) (snd x)" if "x \<in> set (take ?k a)" "y \<in> set (drop ?k a)" for x y
    using before [OF that(1)] after [OF that(2)] by (rule fl_ge_trans [rotated])
  show ?thesis
    unfolding ascending_def
    using parts before after cross
    by (auto simp: sorted_wrt_append)
qed

lemma binarysort_mset: "mset (binarysort a rest) = mset a + mset rest"
proof (induction rest arbitrary: a)
  case Nil
  then show ?case by simp
next
  case (Cons pivot rest)
  have "mset (take l a @ pivot # drop l a) = add_mset pivot (mset a)" for l
    by (metis append_take_drop_id mset.simps(2) mset_append union_mset_add_mset_right)
  with Cons.IH show ?case by (simp add: Let_def)
qed

lemma nan_free_Cons: "nan_free (x # xs) = (snd x \<noteq> NaN \<and> nan_free xs)"
  by (auto simp: nan_free_def)

lemma nan_free_mset: "mset a = mset b \<Longrightarrow> nan_free a = nan_free b"
  by (metis nan_free_def set_mset_mset)

lemma binarysort_ascending:
  "ascending a \<Longrightarrow> nan_free a \<Longrightarrow> nan_free rest \<Longrightarrow> ascending (binarysort a rest)"
proof (induction rest arbitrary: a)
  case Nil
  then show ?case by simp
next
  case (Cons pivot rest)
  let ?a' = "take (bisect (snd pivot) a 0 (length a)) a @ pivot
               # drop (bisect (snd pivot) a 0 (length a)) a"
  from Cons.prems have pv: "snd pivot \<noteq> NaN" and rest: "nan_free rest"
    by (simp_all add: nan_free_Cons)
  have asc: "ascending ?a'" using Cons.prems(1,2) pv by (rule ascending_insert)
  have "set ?a' = insert pivot (set a)"
    by (metis append_take_drop_id list.simps(15) set_append Un_insert_right)
  then have nf: "nan_free ?a'" using Cons.prems(2) pv by (simp add: nan_free_def)
  from Cons.IH [OF asc nf rest] show ?case by (simp add: Let_def)
qed

lemma run_ascending_sorted:
  "ascending (take (Suc (run_ascending x xs)) (x # xs))" if "nan_free (x # xs)"
  using that
proof (induction xs arbitrary: x)
  case Nil
  then show ?case by (simp add: ascending_def)
next
  case (Cons y ys)
  show ?case
  proof (cases "py_lt (snd y) (snd x)")
    case True
    then show ?thesis by (simp add: ascending_def)
  next
    case False
    from Cons.prems have nf: "snd x \<noteq> NaN" "snd y \<noteq> NaN" "nan_free (y # ys)"
      by (simp_all add: nan_free_Cons)
    from False nf have xy: "fl_ge (snd y) (snd x)" by (simp add: not_py_lt_fl_ge)
    from Cons.IH [OF nf(3)]
    have "sorted_wrt (\<lambda>a b. fl_ge b a) (snd y # map snd (take (run_ascending y ys) ys))"
      by (simp add: ascending_def)
    with xy False show ?thesis
      by (auto simp: ascending_def intro: fl_ge_trans [OF _ xy])
  qed
qed

lemma run_descending_sorted:
  "descending (take (Suc (run_descending x xs)) (x # xs))"
proof (induction xs arbitrary: x)
  case Nil
  then show ?case by (simp add: descending_def)
next
  case (Cons y ys)
  show ?case
  proof (cases "py_lt (snd y) (snd x)")
    case False
    then show ?thesis by (simp add: descending_def)
  next
    case True
    then have xy: "fl_ge (snd x) (snd y)" by (rule py_lt_fl_ge)
    from Cons.IH [of y]
    have "sorted_wrt fl_ge (snd y # map snd (take (run_descending y ys) ys))"
      by (simp add: descending_def)
    with xy True show ?thesis
      by (auto simp: descending_def intro: fl_ge_trans [OF xy])
  qed
qed

lemma list_sort_mset: "mset (list_sort a) = mset a"
proof -
  have "mset (take n a) + mset (drop n a) = mset a" for n
    by (metis append_take_drop_id mset_append)
  then show ?thesis
    by (auto simp: list_sort_def binarysort_mset split: prod.splits)
qed

lemma nan_free_take_drop: "nan_free a \<Longrightarrow> nan_free (take n a) \<and> nan_free (drop n a)"
  by (auto simp: nan_free_def dest: in_set_takeD in_set_dropD)

lemma nan_free_rev: "nan_free (rev a) = nan_free a"
  by (simp add: nan_free_def)

lemma list_sort_ascending: "nan_free a \<Longrightarrow> ascending (list_sort a)"
proof (cases a rule: count_run.cases)
  case 1
  then show ?thesis by (simp add: list_sort_def ascending_def)
next
  case (2 x)
  then show ?thesis by (simp add: list_sort_def ascending_def)
next
  case (3 x y xs)
  assume nf: "nan_free a"
  show ?thesis
  proof (cases "py_lt (snd y) (snd x)")
    case True
    let ?n = "2 + run_descending y xs"
    have "descending (take (Suc (run_descending x (y # xs))) (x # y # xs))"
      by (rule run_descending_sorted)
    with True have "descending (take ?n a)" by (simp add: 3)
    then have asc: "ascending (rev (take ?n a))" by (simp add: ascending_rev)
    from nan_free_take_drop [OF nf, of ?n]
    have "nan_free (rev (take ?n a))" "nan_free (drop ?n a)"
      by (simp_all add: nan_free_rev)
    from binarysort_ascending [OF asc this]
    show ?thesis using True by (simp add: list_sort_def 3)
  next
    case False
    let ?n = "2 + run_ascending y xs"
    have "nan_free (x # y # xs)" using nf by (simp add: 3)
    then have "ascending (take (Suc (run_ascending x (y # xs))) (x # y # xs))"
      by (rule run_ascending_sorted)
    with False have asc: "ascending (take ?n a)" by (simp add: 3)
    from nan_free_take_drop [OF nf, of ?n]
    have "nan_free (take ?n a)" "nan_free (drop ?n a)" by simp_all
    from binarysort_ascending [OF asc this]
    show ?thesis using False by (simp add: list_sort_def 3)
  qed
qed

lemma sorted_reverse_mset: "mset (sorted_reverse items) = mset items"
  by (simp add: sorted_reverse_def list_sort_mset)

lemma sorted_reverse_descending: "nan_free items \<Longrightarrow> descending (sorted_reverse items)"
  by (simp add: sorted_reverse_def descending_rev list_sort_ascending nan_free_rev)

text \<open>CPython's sort meets the contract.\<close>

lemma sorted_reverse_contract: "python_sorted_contract sorted_reverse"
  by (simp add: python_sorted_contract_def sorted_reverse_mset sorted_reverse_descending)

lemma recommend_three: "recommend_movies sorted_reverse predictions_three 10
    = [(''b'', Fin (9 / 2)), (''c'', Fin 4), (''a'', Fin (7 / 2))]"
  by (simp add: recommend_movies_def slice0_def predictions_three_def sorted_reverse_def
      list_sort_def bisect_eval)

lemma recommend_nan: "recommend_movies sorted_reverse predictions_nan 10
    = [(''A'', NaN), (''C'', Fin 2), (''B'', Fin 1), (''D'', NaN), (''E'', Fin 3)]"
  by (simp add: recommend_movies_def slice0_def predictions_nan_def sorted_reverse_def
      list_sort_def bisect_eval)

text \<open>
  Claim C9, as the code has it. For every sort that meets the contract of Python's
  \<^verbatim>\<open>sorted\<close>, every dict of predictions none of which is NaN and every \<open>n \<ge> 0\<close>,
  \<^verbatim>\<open>recommend_movies\<close> returns \<open>n\<close> pairs of the dict, or all of them when the dict has
  fewer; they are in descending order of predicted rating and they are the first part of
  the whole dict put in descending order, so no pair left out is rated higher than a pair
  returned.
\<close>

theorem recommend_movies_top_n:
  assumes "python_sorted_contract srt"
      and "0 \<le> n"
      and "nan_free predictions"
  shows "length (recommend_movies srt predictions n) = min (nat n) (length predictions)
       \<and> descending (recommend_movies srt predictions n)
       \<and> (\<exists>rest. mset (recommend_movies srt predictions n @ rest) = mset predictions
                 \<and> descending (recommend_movies srt predictions n @ rest))
       \<and> (length predictions \<le> nat n \<longrightarrow>
            mset (recommend_movies srt predictions n) = mset predictions)"
proof -
  let ?s = "srt predictions"
  from assms(1) have m: "mset ?s = mset predictions"
    by (simp add: python_sorted_contract_def)
  from assms(1,3) have d: "descending ?s"
    by (simp add: python_sorted_contract_def)
  have r: "recommend_movies srt predictions n = take (nat n) ?s"
    using assms(2) by (simp add: recommend_movies_def slice0_def)
  have len: "length ?s = length predictions"
    using m by (metis size_mset)
  have "mset (take (nat n) ?s @ drop (nat n) ?s) = mset predictions
          \<and> descending (take (nat n) ?s @ drop (nat n) ?s)"
    using m d by simp
  then have ex: "\<exists>rest. mset (take (nat n) ?s @ rest) = mset predictions
                   \<and> descending (take (nat n) ?s @ rest)"
    by blast
  have all: "mset (take (nat n) ?s) = mset predictions" if "length predictions \<le> nat n"
    using that len m by simp
  from len descending_take [OF d, of "nat n"] ex all show ?thesis
    by (simp add: r min.commute)
qed

text \<open>The example of the specification: \<open>n = 10\<close> and three predictions.\<close>

theorem recommend_movies_top_n_witness:
  "python_sorted_contract sorted_reverse
   \<and> (0 :: int) \<le> 10
   \<and> nan_free predictions_three
   \<and> recommend_movies sorted_reverse predictions_three 10
       = [(''b'', Fin (9 / 2)), (''c'', Fin 4), (''a'', Fin (7 / 2))]
   \<and> length (recommend_movies sorted_reverse predictions_three 10) = 3
   \<and> descending (recommend_movies sorted_reverse predictions_three 10)
   \<and> mset (recommend_movies sorted_reverse predictions_three 10) = mset predictions_three"
proof -
  have z: "(0 :: int) \<le> 10" by simp
  have f: "nan_free predictions_three"
    by (simp add: nan_free_def predictions_three_def)
  have l: "length predictions_three = 3" "length predictions_three \<le> nat 10"
    by (simp_all add: predictions_three_def)
  note t = recommend_movies_top_n [OF sorted_reverse_contract z f]
  from t l have c1: "length (recommend_movies sorted_reverse predictions_three 10) = 3"
    by simp
  from t have c2: "descending (recommend_movies sorted_reverse predictions_three 10)"
    by blast
  from t l(2) have c3: "mset (recommend_movies sorted_reverse predictions_three 10)
      = mset predictions_three"
    by blast
  show ?thesis
    by (rule conjI [OF sorted_reverse_contract conjI [OF z conjI [OF f
          conjI [OF recommend_three conjI [OF c1 conjI [OF c2 c3]]]]]])
qed

text \<open>
  Claim C9 as the specification states it fails for a dict with NaN ratings, which
  \<^verbatim>\<open>predict_ratings\<close> can return: CPython's sort leaves the rating 3 last, behind 2
  and 1.
\<close>

theorem recommend_movies_nan_order:
  "recommend_movies sorted_reverse predictions_nan 10
     = [(''A'', NaN), (''C'', Fin 2), (''B'', Fin 1), (''D'', NaN), (''E'', Fin 3)]
   \<and> \<not> descending [(''A'', NaN), (''C'', Fin 2), (''B'', Fin 1), (''D'', NaN), (''E'', Fin 3)]
   \<and> python_sorted_contract sorted_reverse"
  using recommend_nan sorted_reverse_contract by (simp add: descending_def)

subsection \<open>The similarity matrices\<close>








text \<open>
  A vector of zero variance has covariance 0 with every vector: where \<^verbatim>\<open>np.corrcoef\<close>
  divides by a standard deviation of 0, it divides 0.
\<close>

lemma zero_variance_covariance:
  assumes "zero_variance xs"
  shows "dot (dev xs) (dev ys) = 0"
proof -
  have sq: "sum_list (map2 (*) ds ds) = 0 \<Longrightarrow> \<forall>d\<in>set ds. d = (0::real)" for ds
  proof (induction ds)
    case Nil
    then show ?case by simp
  next
    case (Cons d ds)
    have nn: "0 \<le> sum_list (map2 (*) ds ds)"
      by (rule sum_list_nonneg) (auto simp: zip_same_conv_map)
    from Cons.prems have "d * d + sum_list (map2 (*) ds ds) = 0" by simp
    with nn have "d * d = 0" "sum_list (map2 (*) ds ds) = 0"
      using zero_le_square [of d] by linarith+
    with Cons.IH show ?case by simp
  qed
  have z: "\<forall>d\<in>set ds. d = (0::real) \<Longrightarrow> sum_list (map2 (*) ds es) = 0" for ds es
  proof (induction ds arbitrary: es)
    case Nil
    then show ?case by simp
  next
    case (Cons d ds)
    then show ?case by (cases es) simp_all
  qed
  from assms have "\<forall>d\<in>set (dev xs). d = 0"
    unfolding zero_variance_def dot_def by (rule sq)
  then show ?thesis unfolding dot_def by (rule z)
qed









subsection \<open>Predicting the ratings\<close>

lemma user_ratings_dict_None:
  "user_ratings_dict ratings u m = None \<longleftrightarrow> m \<notin> movieId ` set (get_user_ratings ratings u)"
  by (simp add: user_ratings_dict_def map_of_eq_None_iff image_image)

lemma accumulate_foldl:
  "accumulate ratings m su (w, s) =
     (foldl fadd w (map (\<lambda>(u, s). fmul s (fsub (Fin (rating_of ratings u m))
                                              (mean_rating ratings u))) (raters ratings m su)),
      foldl fadd s (map snd (raters ratings m su)))"
proof (induction su arbitrary: w s)
  case Nil
  then show ?case by (simp add: raters_def)
next
  case (Cons p su)
  obtain u x where p: "p = (u, x)" by (cases p)
  show ?case
  proof (cases "user_ratings_dict ratings u m")
    case None
    then have "m \<notin> movieId ` set (get_user_ratings ratings u)"
      by (simp add: user_ratings_dict_None)
    then have "raters ratings m (p # su) = raters ratings m su"
      by (simp add: raters_def p)
    with None Cons.IH show ?thesis by (simp add: p)
  next
    case (Some r)
    then have "m \<in> movieId ` set (get_user_ratings ratings u)"
      using user_ratings_dict_None [of ratings u m] by simp
    then have "raters ratings m (p # su) = p # raters ratings m su"
      by (simp add: raters_def p)
    with Some Cons.IH show ?thesis by (simp add: p rating_of_def)
  qed
qed

text \<open>What one turn of the outer loop stores for a movie.\<close>

lemma accumulate_spec:
  "(case accumulate ratings m su (Fin 0, Fin 0) of
      (w, s) \<Rightarrow> if fl_nonzero s then Some (fadd (mean_rating ratings t) (fdiv w s)) else None)
   = spec_predicted_rating ratings su t m"
  by (simp add: accumulate_foldl spec_predicted_rating_def fsum_def Let_def)

lemma map_of_dict_set: "map_of (dict_set d k v) = (map_of d)(k \<mapsto> v)"
  by (induction d) (auto simp: fun_eq_iff)

lemma keys_dict_set: "fst ` set (dict_set d k v) = insert k (fst ` set d)"
proof -
  have "dom (map_of (dict_set d k v)) = insert k (dom (map_of d))"
    by (simp add: map_of_dict_set)
  then show ?thesis by (simp add: dom_map_of_conv_image_fst)
qed

lemma set_dict_set: "set (dict_set d k v) \<subseteq> insert (k, v) (set d)"
  by (induction d) (auto split: if_splits)

lemma values_dict_set: "snd ` set (dict_set d k v) \<subseteq> insert v (snd ` set d)"
  using image_mono [OF set_dict_set, of snd d k v] by simp

lemma predict_loop_step:
  "predict_loop ratings su (mean_rating ratings t) ((m, ttl) # rest) d =
     predict_loop ratings su (mean_rating ratings t) rest
       (case spec_predicted_rating ratings su t m of
          Some v \<Rightarrow> dict_set d ttl v | None \<Rightarrow> d)"
proof (cases "accumulate ratings m su (Fin 0, Fin 0)")
  case (Pair w s)
  with accumulate_spec [where ratings = ratings and m = m and su = su and t = t]
  have "spec_predicted_rating ratings su t m =
          (if fl_nonzero s then Some (fadd (mean_rating ratings t) (fdiv w s)) else None)"
    by simp
  with Pair show ?thesis by simp
qed

lemma predict_loop_lookup:
  assumes "\<forall>(m', t')\<in>set cands. t' = ttl \<longrightarrow> m' = mid"
  shows "map_of (predict_loop ratings su (mean_rating ratings t) cands d) ttl =
     (if (mid, ttl) \<in> set cands
      then (case spec_predicted_rating ratings su t mid of
              Some v \<Rightarrow> Some v | None \<Rightarrow> map_of d ttl)
      else map_of d ttl)"
  using assms
proof (induction cands arbitrary: d)
  case Nil
  then show ?case by simp
next
  case (Cons c cands)
  obtain m' t' where c: "c = (m', t')" by (cases c)
  from Cons.prems have rest: "\<forall>(m', t')\<in>set cands. t' = ttl \<longrightarrow> m' = mid" by simp
  note IH = Cons.IH [OF rest]
  show ?case
  proof (cases "t' = ttl")
    case True
    with Cons.prems c have m': "m' = mid" by simp
    show ?thesis
      unfolding c predict_loop_step IH
      by (simp add: True m' map_of_dict_set split: option.splits)
  next
    case False
    show ?thesis
      unfolding c predict_loop_step IH
      using False by (simp add: map_of_dict_set split: option.splits)
  qed
qed

lemma predict_loop_keys:
  "fst ` set (predict_loop ratings su tm cands d) \<subseteq> fst ` set d \<union> snd ` set cands"
proof (induction cands arbitrary: d)
  case Nil
  then show ?case by simp
next
  case (Cons c cands)
  obtain m' t' where c: "c = (m', t')" by (cases c)
  obtain w s where a: "accumulate ratings m' su (Fin 0, Fin 0) = (w, s)"
    by (cases "accumulate ratings m' su (Fin 0, Fin 0)")
  show ?case
  proof (cases "fl_nonzero s")
    case True
    have "fst ` set (predict_loop ratings su tm cands (dict_set d t' (fadd tm (fdiv w s))))
            \<subseteq> insert t' (fst ` set d) \<union> snd ` set cands"
      using Cons.IH [of "dict_set d t' (fadd tm (fdiv w s))"] by (simp add: keys_dict_set)
    with True a show ?thesis by (auto simp: c)
  next
    case False
    with a Cons.IH [of d] show ?thesis by (auto simp: c)
  qed
qed

text \<open>
  The sums of the formula over numbers are sums of real numbers.
\<close>

lemma fsum_Fin: "fsum (map Fin xs) = Fin (sum_list xs)"
proof -
  have "foldl fadd (Fin a) (map Fin xs) = Fin (a + sum_list xs)" for a
    by (induction xs arbitrary: a) (simp_all add: add.assoc)
  from this [of 0] show ?thesis by (simp add: fsum_def)
qed

lemma set_drop_duplicates: "set (drop_duplicates xs) = set xs"
  by (simp add: drop_duplicates_def)

lemma set_unseen_movies:
  "(m, ttl) \<in> set (unseen_movies ratings su t) \<longleftrightarrow>
     (\<exists>r\<in>set ratings. movieId r = m \<and> title r = ttl \<and> userId r \<in> fst ` set su
        \<and> m \<notin> movieId ` set (get_user_ratings ratings t))"
  by (auto simp: unseen_movies_def set_drop_duplicates Let_def)

lemma unseen_movies_not_target:
  "(m, ttl) \<in> set (unseen_movies ratings su t)
     \<Longrightarrow> m \<notin> movieId ` set (get_user_ratings ratings t)"
  by (auto simp: set_unseen_movies)

lemma predict_ratings_Inr:
  "predict_ratings srt ratings df t = Inr predicted \<longleftrightarrow>
     (\<exists>su. get_top_similar_users srt df t 40 = Inr su \<and> predicted = predict_with ratings su t)"
  by (auto simp: predict_ratings_def split: sum.splits)

lemmas eval_defs = predict_ratings_def get_top_similar_users_def column_def slice0_def
  sort_values_stable_def predict_with_def unseen_movies_def get_user_ratings_def
  drop_duplicates_def mean_rating_def mean_def user_ratings_dict_def

lemma top_pair: "get_top_similar_users sort_values_stable sim_pair 1 40
    = Inr [(2, Fin (4 / 5)), (1, Fin 0)]"
  by (simp add: eval_defs sim_pair_def)

lemma predict_spec: "predict_ratings sort_values_stable ratings_spec sim_pair 1
    = Inr [(''item3'', Fin (9 / 2))]"
  by (simp add: eval_defs sim_pair_def ratings_spec_def)

lemma top_half: "get_top_similar_users sort_values_stable sim_half 1 40
    = Inr [(2, Fin (1 / 2)), (3, Fin (1 / 4)), (1, Fin 0)]"
  by (simp add: eval_defs sim_half_def)

lemma predict_same_title: "predict_ratings sort_values_stable ratings_same_title sim_half 1
    = Inr [(''A'', Fin 3)]"
  by (simp add: eval_defs sim_half_def ratings_same_title_def)

lemma predict_own_title: "predict_ratings sort_values_stable ratings_own_title sim_pair 1
    = Inr [(''A'', Fin 5)]"
  by (simp add: eval_defs sim_pair_def ratings_own_title_def)

lemma predict_no_target: "predict_ratings sort_values_stable ratings_no_target sim3 3
    = Inr [(''A'', NaN), (''B'', NaN)]"
  by (simp add: eval_defs sim3_def ratings_no_target_def)

lemma spec_same_title:
  "spec_predicted_rating ratings_same_title [(2, Fin (1 / 2)), (3, Fin (1 / 4)), (1, Fin 0)] 1 10
    = Some (Fin 5)"
  by (simp add: spec_predicted_rating_def raters_def fsum_def rating_of_def eval_defs
      ratings_same_title_def)

lemma spec_spec:
  "spec_predicted_rating ratings_spec [(2, Fin (4 / 5)), (1, Fin 0)] 1 3 = Some (Fin (9 / 2))"
  by (simp add: spec_predicted_rating_def raters_def fsum_def rating_of_def eval_defs
      ratings_spec_def)

lemma unseen_same_title:
  "unseen_movies ratings_same_title [(2, Fin (1 / 2)), (3, Fin (1 / 4)), (1, Fin 0)] 1
    = [(10, ''A''), (20, ''A'')]"
  by (simp add: eval_defs ratings_same_title_def)

lemma unseen_spec:
  "unseen_movies ratings_spec [(2, Fin (4 / 5)), (1, Fin 0)] 1 = [(3, ''item3'')]"
  by (simp add: eval_defs ratings_spec_def)

text \<open>
  Claim C1, as the code has it. For every target user with at least one rating and every
  candidate item whose title no other candidate item carries, \<^verbatim>\<open>predict_ratings\<close>
  returns, under the title of the item, the target user's mean rating plus the weighted
  sum over the similarity sum of the neighbours who rated the item when that similarity
  sum is not 0, and no entry under that title when it is 0. The returned dict is keyed by
  title, so a later candidate of the same title replaces the entry of an earlier one.
\<close>

theorem predicted_rating_formula:
  assumes "get_top_similar_users srt similarity_df target_user 40 = Inr similar_users"
      and "get_user_ratings ratings target_user \<noteq> []"
      and "(item, item_title) \<in> set (unseen_movies ratings similar_users target_user)"
      and "\<forall>(m, t)\<in>set (unseen_movies ratings similar_users target_user).
             t = item_title \<longrightarrow> m = item"
  shows "\<exists>predicted. predict_ratings srt ratings similarity_df target_user = Inr predicted
           \<and> map_of predicted item_title
               = spec_predicted_rating ratings similar_users target_user item
           \<and> mean_rating ratings target_user
               = Fin (sum_list (map rating (get_user_ratings ratings target_user))
                      / real (length (get_user_ratings ratings target_user)))"
proof -
  have p: "predict_ratings srt ratings similarity_df target_user
             = Inr (predict_with ratings similar_users target_user)"
    using assms(1) by (simp add: predict_ratings_def)
  have "map_of (predict_with ratings similar_users target_user) item_title
          = spec_predicted_rating ratings similar_users target_user item"
    unfolding predict_with_def predict_loop_lookup [OF assms(4)]
    using assms(3) by (simp split: option.splits)
  moreover have "mean_rating ratings target_user
               = Fin (sum_list (map rating (get_user_ratings ratings target_user))
                      / real (length (get_user_ratings ratings target_user)))"
    using assms(2) by (simp add: mean_rating_def mean_def)
  ultimately show ?thesis using p by simp
qed

text \<open>
  The example of the specification: the target user has the mean 4, the one neighbour has
  the similarity 0.8 and the mean 4.5 and rated the item 5; the predicted rating is 4.5.
\<close>

theorem predicted_rating_formula_witness:
  "get_top_similar_users sort_values_stable sim_pair 1 40 = Inr [(2, Fin (4 / 5)), (1, Fin 0)]
   \<and> get_user_ratings ratings_spec 1 \<noteq> []
   \<and> unseen_movies ratings_spec [(2, Fin (4 / 5)), (1, Fin 0)] 1 = [(3, ''item3'')]
   \<and> mean_rating ratings_spec 1 = Fin 4
   \<and> spec_predicted_rating ratings_spec [(2, Fin (4 / 5)), (1, Fin 0)] 1 3 = Some (Fin (9 / 2))
   \<and> (\<exists>predicted. predict_ratings sort_values_stable ratings_spec sim_pair 1 = Inr predicted
         \<and> map_of predicted ''item3'' = Some (Fin (9 / 2)))"
proof -
  have r: "get_user_ratings ratings_spec 1 \<noteq> []"
    by (simp add: get_user_ratings_def ratings_spec_def)
  have c: "(3, ''item3'') \<in> set (unseen_movies ratings_spec [(2, Fin (4 / 5)), (1, Fin 0)] 1)"
    by (simp add: unseen_spec)
  have u: "\<forall>(m, t)\<in>set (unseen_movies ratings_spec [(2, Fin (4 / 5)), (1, Fin 0)] 1).
             t = ''item3'' \<longrightarrow> m = 3"
    by (simp add: unseen_spec)
  have m: "mean_rating ratings_spec 1 = Fin 4"
    by (simp add: mean_rating_def mean_def get_user_ratings_def ratings_spec_def)
  from predicted_rating_formula [OF top_pair r c u]
  obtain predicted where
    "predict_ratings sort_values_stable ratings_spec sim_pair 1 = Inr predicted"
    "map_of predicted ''item3''
       = spec_predicted_rating ratings_spec [(2, Fin (4 / 5)), (1, Fin 0)] 1 3"
    by blast
  then have e: "\<exists>predicted.
      predict_ratings sort_values_stable ratings_spec sim_pair 1 = Inr predicted
      \<and> map_of predicted ''item3'' = Some (Fin (9 / 2))"
    by (simp add: spec_spec)
  show ?thesis
    by (rule conjI [OF top_pair conjI [OF r conjI [OF unseen_spec conjI [OF m
          conjI [OF spec_spec e]]]]])
qed

text \<open>
  Claim C1 as the specification states it fails where two candidate items share a title.
  Movies 10 and 20 are both titled A. For movie 10 the similarity sum is 1/2 and the
  formula gives 5; the dict returned holds 3 under A, the prediction for movie 20.
\<close>

theorem predicted_rating_overwritten:
  "get_top_similar_users sort_values_stable sim_half 1 40
     = Inr [(2, Fin (1 / 2)), (3, Fin (1 / 4)), (1, Fin 0)]
   \<and> get_user_ratings ratings_same_title 1 \<noteq> []
   \<and> (10, ''A'') \<in> set (unseen_movies ratings_same_title
                          [(2, Fin (1 / 2)), (3, Fin (1 / 4)), (1, Fin 0)] 1)
   \<and> spec_predicted_rating ratings_same_title
        [(2, Fin (1 / 2)), (3, Fin (1 / 4)), (1, Fin 0)] 1 10 = Some (Fin 5)
   \<and> predict_ratings sort_values_stable ratings_same_title sim_half 1 = Inr [(''A'', Fin 3)]"
  using top_half unseen_same_title spec_same_title predict_same_title
  by (simp add: get_user_ratings_def ratings_same_title_def)

text \<open>
  Claim C4, as the code has it. Every key of the returned dict is the title of a rating
  row of a neighbour other than the target user, for a movie id that the target user has
  not rated. Where every title belongs to one movie id only, no title of a movie rated by
  the target user is a key.
\<close>

theorem prediction_keys_unseen:
  assumes "predict_ratings srt ratings similarity_df target_user = Inr predicted"
      and "key \<in> fst ` set predicted"
  shows "(\<exists>similar_users r.
            get_top_similar_users srt similarity_df target_user 40 = Inr similar_users
            \<and> r \<in> set ratings \<and> title r = key
            \<and> userId r \<in> fst ` set similar_users \<and> userId r \<noteq> target_user
            \<and> movieId r \<notin> movieId ` set (get_user_ratings ratings target_user))
       \<and> ((\<forall>r\<in>set ratings. \<forall>r'\<in>set ratings. title r = title r' \<longrightarrow> movieId r = movieId r')
            \<longrightarrow> key \<notin> title ` set (get_user_ratings ratings target_user))"
proof -
  from assms(1) obtain su where su: "get_top_similar_users srt similarity_df target_user 40 = Inr su"
    and p: "predicted = predict_with ratings su target_user"
    unfolding predict_ratings_Inr by blast
  have "fst ` set predicted \<subseteq> snd ` set (unseen_movies ratings su target_user)"
    using predict_loop_keys [of ratings su "mean_rating ratings target_user"
      "unseen_movies ratings su target_user" "[]"]
    by (simp add: p predict_with_def)
  with assms(2) have "key \<in> snd ` set (unseen_movies ratings su target_user)"
    by blast
  then obtain m where "(m, key) \<in> set (unseen_movies ratings su target_user)" by force
  then have "\<exists>r\<in>set ratings. movieId r = m \<and> title r = key \<and> userId r \<in> fst ` set su
        \<and> m \<notin> movieId ` set (get_user_ratings ratings target_user)"
    by (simp only: set_unseen_movies)
  then obtain r where r: "r \<in> set ratings" "movieId r = m" "title r = key"
      "userId r \<in> fst ` set su" "m \<notin> movieId ` set (get_user_ratings ratings target_user)"
    by blast
  have nt: "userId r \<noteq> target_user"
  proof
    assume "userId r = target_user"
    with r(1) have "r \<in> set (get_user_ratings ratings target_user)"
      by (simp add: get_user_ratings_def)
    with r(2,5) show False by blast
  qed
  have first: "\<exists>similar_users r.
            get_top_similar_users srt similarity_df target_user 40 = Inr similar_users
            \<and> r \<in> set ratings \<and> title r = key
            \<and> userId r \<in> fst ` set similar_users \<and> userId r \<noteq> target_user
            \<and> movieId r \<notin> movieId ` set (get_user_ratings ratings target_user)"
    using su r nt by blast
  have second: "key \<notin> title ` set (get_user_ratings ratings target_user)"
    if f: "\<forall>r\<in>set ratings. \<forall>r'\<in>set ratings. title r = title r' \<longrightarrow> movieId r = movieId r'"
  proof
    assume "key \<in> title ` set (get_user_ratings ratings target_user)"
    then obtain r' where r': "r' \<in> set (get_user_ratings ratings target_user)" "title r' = key"
      by blast
    then have "r' \<in> set ratings" by (simp add: get_user_ratings_def)
    with f r(1) have "title r = title r' \<longrightarrow> movieId r = movieId r'" by blast
    with r(3) r'(2) have "movieId r = movieId r'" by simp
    with r(2,5) r'(1) show False by blast
  qed
  from first second show ?thesis by blast
qed

theorem prediction_keys_unseen_witness:
  "predict_ratings sort_values_stable ratings_spec sim_pair 1 = Inr [(''item3'', Fin (9 / 2))]
   \<and> ''item3'' \<in> fst ` set [(''item3'', Fin (9 / 2))]
   \<and> ''item3'' \<notin> title ` set (get_user_ratings ratings_spec 1)
   \<and> (\<exists>similar_users r.
         get_top_similar_users sort_values_stable sim_pair 1 40 = Inr similar_users
         \<and> r \<in> set ratings_spec \<and> title r = ''item3''
         \<and> userId r \<in> fst ` set similar_users \<and> userId r \<noteq> 1
         \<and> movieId r \<notin> movieId ` set (get_user_ratings ratings_spec 1))"
proof -
  have k: "''item3'' \<in> fst ` set [(''item3'', Fin (9 / 2))]" by simp
  have f: "\<forall>r\<in>set ratings_spec. \<forall>r'\<in>set ratings_spec.
             title r = title r' \<longrightarrow> movieId r = movieId r'"
    by (simp add: ratings_spec_def)
  note c = prediction_keys_unseen [OF predict_spec k]
  have c2: "''item3'' \<notin> title ` set (get_user_ratings ratings_spec 1)"
    by (rule mp [OF conjunct2 [OF c] f])
  show ?thesis
    by (rule conjI [OF predict_spec conjI [OF k conjI [OF c2 conjunct1 [OF c]]]])
qed

text \<open>
  Claim C4 as the specification states it fails for titles: user 1 rated movie 1, titled
  A; movie 2 has the same title, is unseen by user 1 and rated by the neighbour; the
  returned dict has the key A.
\<close>

theorem prediction_key_own_title:
  "predict_ratings sort_values_stable ratings_own_title sim_pair 1 = Inr [(''A'', Fin 5)]
   \<and> ''A'' \<in> fst ` set [(''A'', Fin 5)]
   \<and> ''A'' \<in> title ` set (get_user_ratings ratings_own_title 1)"
  using predict_own_title by (simp add: get_user_ratings_def ratings_own_title_def)

lemma predict_loop_values_NaN:
  "snd ` set (predict_loop ratings su NaN cands d) \<subseteq> insert NaN (snd ` set d)"
proof (induction cands arbitrary: d)
  case Nil
  then show ?case by auto
next
  case (Cons c cands)
  obtain m' t' where c: "c = (m', t')" by (cases c)
  obtain w s where a: "accumulate ratings m' su (Fin 0, Fin 0) = (w, s)"
    by (cases "accumulate ratings m' su (Fin 0, Fin 0)")
  show ?case
  proof (cases "fl_nonzero s")
    case True
    have "snd ` set (predict_loop ratings su NaN cands (dict_set d t' NaN))
            \<subseteq> insert NaN (snd ` set (dict_set d t' NaN))"
      by (rule Cons.IH)
    with values_dict_set [of d t' NaN]
    have "snd ` set (predict_loop ratings su NaN cands (dict_set d t' NaN))
            \<subseteq> insert NaN (snd ` set d)"
      by blast
    with True a show ?thesis by (simp add: c)
  next
    case False
    with a Cons.IH [of d] show ?thesis by (simp add: c)
  qed
qed

text \<open>
  Claim C5, as the code has it. For a target user without ratings
  \<^verbatim>\<open>predict_ratings\<close> raises nothing of its own: the mean of no ratings is NaN, and
  when the target user is a label of the similarity matrix a dict is returned in which
  every predicted rating is NaN. The only failure is the \<^verbatim>\<open>KeyError\<close> of the column
  lookup for a user who is not in the matrix.
\<close>

theorem no_ratings_prediction_nan:
  assumes "get_user_ratings ratings target_user = []"
  shows "(target_user \<in> set (labels similarity_df) \<longrightarrow>
            (\<exists>predicted. predict_ratings srt ratings similarity_df target_user = Inr predicted
               \<and> snd ` set predicted \<subseteq> {NaN}))
       \<and> (target_user \<notin> set (labels similarity_df) \<longrightarrow>
            predict_ratings srt ratings similarity_df target_user = Inl KeyError)"
proof -
  have m: "mean_rating ratings target_user = NaN"
    using assms by (simp add: mean_rating_def mean_def)
  have "snd ` set (predict_with ratings su target_user) \<subseteq> {NaN}" for su
    using predict_loop_values_NaN [of ratings su "unseen_movies ratings su target_user" "[]"]
    by (simp add: predict_with_def m)
  then show ?thesis
    by (simp add: predict_ratings_def get_top_similar_users_def)
qed

theorem no_ratings_prediction_nan_witness:
  "get_user_ratings ratings_no_target 3 = []
   \<and> 3 \<in> set (labels sim3)
   \<and> (\<exists>predicted. predict_ratings sort_values_stable ratings_no_target sim3 3 = Inr predicted
         \<and> snd ` set predicted \<subseteq> {NaN})"
proof -
  have e: "get_user_ratings ratings_no_target 3 = []"
    by (simp add: get_user_ratings_def ratings_no_target_def)
  have l: "3 \<in> set (labels sim3)" by (simp add: sim3_def)
  from no_ratings_prediction_nan [OF e, of sim3 sort_values_stable] e l
  show ?thesis by simp
qed

text \<open>
  Claim C5 as the specification states it fails: user 3 has no ratings and
  \<^verbatim>\<open>predict_ratings\<close> returns a dict, with NaN for both movies.
\<close>

theorem no_ratings_prediction_returned:
  "get_user_ratings ratings_no_target 3 = []
   \<and> predict_ratings sort_values_stable ratings_no_target sim3 3
       = Inr [(''A'', NaN), (''B'', NaN)]"
  using predict_no_target by (simp add: get_user_ratings_def ratings_no_target_def)

lemma unseen_movies_without_target:
  "unseen_movies ratings (filter (\<lambda>p. fst p \<noteq> t) su) t = unseen_movies ratings su t"
proof -
  have "filter (\<lambda>r. movieId r \<notin> movieId ` set (get_user_ratings ratings t))
          (filter (\<lambda>r. userId r \<in> fst ` set (filter (\<lambda>p. fst p \<noteq> t) su)) ratings)
      = filter (\<lambda>r. movieId r \<notin> movieId ` set (get_user_ratings ratings t))
          (filter (\<lambda>r. userId r \<in> fst ` set su) ratings)"
    unfolding filter_filter
    by (rule filter_cong) (auto simp: get_user_ratings_def)
  then show ?thesis by (simp add: unseen_movies_def Let_def)
qed

lemma accumulate_without_target:
  assumes "user_ratings_dict ratings t m = None"
  shows "accumulate ratings m (filter (\<lambda>p. fst p \<noteq> t) su) acc = accumulate ratings m su acc"
proof (induction su arbitrary: acc)
  case Nil
  then show ?case by simp
next
  case (Cons p su)
  obtain u x where p: "p = (u, x)" by (cases p)
  obtain w s where acc: "acc = (w, s)" by (cases acc)
  show ?case
  proof (cases "u = t")
    case True
    with assms Cons.IH show ?thesis by (simp add: p acc)
  next
    case False
    with Cons.IH show ?thesis by (simp add: p acc split: option.splits)
  qed
qed

lemma predict_loop_without_target:
  assumes "\<forall>(m, ttl)\<in>set cands. m \<notin> movieId ` set (get_user_ratings ratings t)"
  shows "predict_loop ratings (filter (\<lambda>p. fst p \<noteq> t) su) tm cands d
       = predict_loop ratings su tm cands d"
  using assms
proof (induction cands arbitrary: d)
  case Nil
  then show ?case by simp
next
  case (Cons c cands)
  obtain m' t' where c: "c = (m', t')" by (cases c)
  from Cons.prems have "user_ratings_dict ratings t m' = None"
    by (simp add: c user_ratings_dict_None)
  then have a: "accumulate ratings m' (filter (\<lambda>p. fst p \<noteq> t) su) (Fin 0, Fin 0)
              = accumulate ratings m' su (Fin 0, Fin 0)"
    by (rule accumulate_without_target)
  from Cons.prems have rest: "\<forall>(m, ttl)\<in>set cands. m \<notin> movieId ` set (get_user_ratings ratings t)"
    by simp
  obtain w s where ws: "accumulate ratings m' su (Fin 0, Fin 0) = (w, s)"
    by (cases "accumulate ratings m' su (Fin 0, Fin 0)")
  show ?case
    by (simp add: c a ws Cons.IH [OF rest])
qed

lemma predict_with_without_target:
  "predict_with ratings (filter (\<lambda>p. fst p \<noteq> t) su) t = predict_with ratings su t"
proof -
  have "\<forall>(m, ttl)\<in>set (unseen_movies ratings su t).
          m \<notin> movieId ` set (get_user_ratings ratings t)"
    by (auto dest: unseen_movies_not_target)
  then show ?thesis
    by (simp add: predict_with_def unseen_movies_without_target predict_loop_without_target)
qed

text \<open>
  Claim C10. The dict returned by \<^verbatim>\<open>predict_ratings\<close> is the one computed from the
  selected neighbourhood with the target user removed from it: the movies of the target
  user are no candidates, so the target user rates no candidate and adds to no sum.
\<close>

theorem prediction_without_target_neighbour:
  "predict_ratings srt ratings similarity_df target_user =
     (case get_top_similar_users srt similarity_df target_user 40 of
        Inl e \<Rightarrow> Inl e
      | Inr similar_users \<Rightarrow>
          Inr (predict_with ratings (filter (\<lambda>p. fst p \<noteq> target_user) similar_users)
                 target_user))"
proof (cases "get_top_similar_users srt similarity_df target_user 40")
  case (Inl e)
  then show ?thesis by (simp add: predict_ratings_def)
next
  case (Inr similar_users)
  have "predict_with ratings (filter (\<lambda>p. fst p \<noteq> target_user) similar_users) target_user
          = predict_with ratings similar_users target_user"
    by (rule predict_with_without_target)
  with Inr show ?thesis by (simp add: predict_ratings_def)
qed

theorem prediction_without_target_neighbour_witness:
  "get_top_similar_users sort_values_stable sim_pair 1 40 = Inr [(2, Fin (4 / 5)), (1, Fin 0)]
   \<and> predict_ratings sort_values_stable ratings_spec sim_pair 1
       = Inr (predict_with ratings_spec [(2, Fin (4 / 5))] 1)
   \<and> predict_with ratings_spec [(2, Fin (4 / 5))] 1 = [(''item3'', Fin (9 / 2))]"
  using prediction_without_target_neighbour [of sort_values_stable ratings_spec sim_pair 1]
    top_pair predict_spec
  by simp

end
